theory Spec2Isabelle
  imports Main "HOL-Library.Multiset"
begin

section \<open>The booking table\<close>

text \<open>
  The booking service (\<^verbatim>\<open>src/services/bookingService.js\<close>) works on one table through
  the Prisma client. A timestamp (a JavaScript \<^verbatim>\<open>Date\<close>) is its number of milliseconds
  since the epoch, an \<open>int\<close>; identifiers are integers; the status is the string the
  caller gave. The audit columns \<^verbatim>\<open>createdAt\<close> and \<^verbatim>\<open>updatedAt\<close> and the joined
  \<^verbatim>\<open>user\<close> and \<^verbatim>\<open>station\<close> objects are never read by the service and are left out.
\<close>

record booking_data =
  userId :: int
  stationId :: int
  startTime :: int
  endTime :: int
  status :: string

text \<open>A stored row: the data and the identifier (\<^verbatim>\<open>id\<close> in the source).\<close>

record booking = booking_data +
  bookingId :: int

text \<open>
  The \<^verbatim>\<open>data\<close> object of \<^verbatim>\<open>update\<close>: every field may be missing
  (\<^verbatim>\<open>undefined\<close>), which is \<open>None\<close>.
\<close>

record booking_patch =
  userIdOpt :: "int option"
  stationIdOpt :: "int option"
  startTimeOpt :: "int option"
  endTimeOpt :: "int option"
  statusOpt :: "string option"

text \<open>
  Modelled from the spec: the Prisma schema that declares the booking model is not among
  the sources. The spec says that insert "assigns \<^verbatim>\<open>id\<close>", and the repository's
  documentation describes every key as an auto-increment primary key: the table is the
  list of its rows in insertion order with the counter of the key; a new row takes the
  counter's value and the counter moves on. The spec also says that the \<^verbatim>\<open>userId\<close> and
  the \<^verbatim>\<open>stationId\<close> of a reservation "must reference resources/users that exist", that
  the store enforces this, and that "violations surface as a distinct error, not as a
  conflict": the store holds the keys of the users and of the stations, which the booking
  service never changes.
\<close>

record store =
  rows :: "booking list"
  nextId :: int
  users :: "int list"
  stations :: "int list"

datatype error =
  NotFound      \<comment> \<open>\<^verbatim>\<open>error.status = 404\<close>\<close>
| Conflict      \<comment> \<open>\<^verbatim>\<open>error.status = 409\<close>\<close>
| ValidationError  \<comment> \<open>the request schema rejected the body\<close>
| ForeignKey    \<comment> \<open>the store rejected a write whose user or station does not exist\<close>
| PrismaError   \<comment> \<open>the Prisma client rejected the query\<close>

subsection \<open>The Prisma calls the service makes\<close>

definition mkBooking :: "booking_data \<Rightarrow> int \<Rightarrow> booking" where
  "mkBooking d i =
     \<lparr>userId = userId d, stationId = stationId d, startTime = startTime d,
      endTime = endTime d, status = status d, bookingId = i\<rparr>"

text \<open>\<^verbatim>\<open>prisma.booking.findUnique({ where: { id } })\<close>\<close>

definition prisma_findUnique :: "store \<Rightarrow> int \<Rightarrow> booking option" where
  "prisma_findUnique s i = find (\<lambda>b. bookingId b = i) (rows s)"

text \<open>
  \<^verbatim>\<open>prisma.booking.create({ data })\<close>: the store rejects a row whose user or station
  does not exist, and writes nothing then.
\<close>

definition dataRefsExist :: "store \<Rightarrow> booking_data \<Rightarrow> bool" where
  "dataRefsExist s d = (userId d \<in> set (users s) \<and> stationId d \<in> set (stations s))"

definition prisma_create :: "store \<Rightarrow> booking_data \<Rightarrow> (error + booking) \<times> store" where
  "prisma_create s d =
     (if \<not> dataRefsExist s d
      then (Inl ForeignKey, s)
      else (let b = mkBooking d (nextId s)
            in (Inr b, s\<lparr>rows := rows s @ [b], nextId := nextId s + 1\<rparr>)))"

text \<open>
  JavaScript's \<^verbatim>\<open>a ?? b\<close> on a field that may be missing.
\<close>

definition nullish :: "'a option \<Rightarrow> 'a \<Rightarrow> 'a" where
  "nullish a b = (case a of None \<Rightarrow> b | Some v \<Rightarrow> v)"

text \<open>What \<^verbatim>\<open>prisma.booking.update\<close> writes into the row: the fields \<^verbatim>\<open>data\<close> has.\<close>

definition applyPatch :: "booking \<Rightarrow> booking_patch \<Rightarrow> booking" where
  "applyPatch b p =
     b\<lparr>userId := nullish (userIdOpt p) (userId b),
       stationId := nullish (stationIdOpt p) (stationId b),
       startTime := nullish (startTimeOpt p) (startTime b),
       endTime := nullish (endTimeOpt p) (endTime b),
       status := nullish (statusOpt p) (status b)\<rparr>"

text \<open>
  The user and the station that \<^verbatim>\<open>data\<close> names, when it names one, exist.
\<close>

definition patchRefsExist :: "store \<Rightarrow> booking_patch \<Rightarrow> bool" where
  "patchRefsExist s p =
     ((case userIdOpt p of None \<Rightarrow> True | Some u \<Rightarrow> u \<in> set (users s)) \<and>
      (case stationIdOpt p of None \<Rightarrow> True | Some t \<Rightarrow> t \<in> set (stations s)))"

text \<open>
  \<^verbatim>\<open>prisma.booking.update({ where: { id }, data })\<close>; the client throws when no row
  has the key, and the store rejects a \<^verbatim>\<open>userId\<close> or \<^verbatim>\<open>stationId\<close> that references
  nothing.
\<close>

definition prisma_update :: "store \<Rightarrow> int \<Rightarrow> booking_patch \<Rightarrow> (error + booking) \<times> store" where
  "prisma_update s i p =
     (case prisma_findUnique s i of
        None \<Rightarrow> (Inl PrismaError, s)
      | Some b \<Rightarrow>
          if \<not> patchRefsExist s p then (Inl ForeignKey, s)
          else (Inr (applyPatch b p),
                s\<lparr>rows := map (\<lambda>r. if bookingId r = i then applyPatch r p else r) (rows s)\<rparr>))"

text \<open>\<^verbatim>\<open>prisma.booking.delete({ where: { id } })\<close>; it throws too when no row has the key.\<close>

definition prisma_delete :: "store \<Rightarrow> int \<Rightarrow> (error + unit) \<times> store" where
  "prisma_delete s i =
     (case prisma_findUnique s i of
        None \<Rightarrow> (Inl PrismaError, s)
      | Some b \<Rightarrow> (Inr (), s\<lparr>rows := filter (\<lambda>r. bookingId r \<noteq> i) (rows s)\<rparr>))"

section \<open>The service\<close>

subsection \<open>findById\<close>

definition findById :: "store \<Rightarrow> int \<Rightarrow> (error + booking) \<times> store" where
  "findById s i =
     (case prisma_findUnique s i of
        None \<Rightarrow> (Inl NotFound, s)
      | Some b \<Rightarrow> (Inr b, s))"

subsection \<open>isStationAvailable\<close>

text \<open>
  The \<^verbatim>\<open>where\<close> clause of the query. \<^verbatim>\<open>excludeBookingId && { NOT: ... }\<close> adds the
  exclusion only for a truthy identifier: not for \<^verbatim>\<open>null\<close> (the default, \<open>None\<close>) and
  not for \<^verbatim>\<open>0\<close>.
\<close>

definition overlapWhere :: "int \<Rightarrow> int \<Rightarrow> int \<Rightarrow> int option \<Rightarrow> booking \<Rightarrow> bool" where
  "overlapWhere sid st en excludeBookingId b =
     (stationId b = sid \<and> startTime b < en \<and> endTime b > st \<and>
      (case excludeBookingId of
         None \<Rightarrow> True
       | Some x \<Rightarrow> if x = 0 then True else \<not> (bookingId b = x)))"

definition isStationAvailable :: "store \<Rightarrow> int \<Rightarrow> int \<Rightarrow> int \<Rightarrow> int option \<Rightarrow> bool" where
  "isStationAvailable s sid st en excludeBookingId =
     (let overlappingBookings = filter (overlapWhere sid st en excludeBookingId) (rows s)
      in length overlappingBookings = 0)"

subsection \<open>create, update, remove\<close>

definition create :: "store \<Rightarrow> booking_data \<Rightarrow> (error + booking) \<times> store" where
  "create s d =
     (let available = isStationAvailable s (stationId d) (startTime d) (endTime d) None
      in if \<not> available then (Inl Conflict, s)
         else prisma_create s d)"

definition update :: "store \<Rightarrow> int \<Rightarrow> booking_patch \<Rightarrow> (error + booking) \<times> store" where
  "update s i p =
     (case findById s i of
        (Inl e, s1) \<Rightarrow> (Inl e, s1)
      | (Inr b, s1) \<Rightarrow>
          (let available =
                 isStationAvailable s1
                   (nullish (stationIdOpt p) (stationId b))
                   (nullish (startTimeOpt p) (startTime b))
                   (nullish (endTimeOpt p) (endTime b))
                   (Some i)
           in if \<not> available then (Inl Conflict, s1)
              else prisma_update s1 i p))"

text \<open>\<^verbatim>\<open>remove\<close> in the source; the name is taken by a constant on sets.\<close>

definition remove_booking :: "store \<Rightarrow> int \<Rightarrow> (error + unit) \<times> store" where
  "remove_booking s i =
     (case findById s i of
        (Inl e, s1) \<Rightarrow> (Inl e, s1)
      | (Inr b, s1) \<Rightarrow> prisma_delete s1 i)"

subsection \<open>findAll\<close>

text \<open>
  The \<^verbatim>\<open>filters\<close> object. \<^verbatim>\<open>limit\<close> and \<^verbatim>\<open>offset\<close> hold what
  \<^verbatim>\<open>parseInt\<close> reads from the field: \<open>None\<close> when the field is missing or
  \<^verbatim>\<open>parseInt\<close> gives \<^verbatim>\<open>NaN\<close>.
\<close>

record filters =
  filterStatus :: "string option"
  limit :: "int option"
  offset :: "int option"

text \<open>
  The object \<^verbatim>\<open>findAll\<close> returns: \<^verbatim>\<open>{ total, count, bookings }\<close> (the first two
  names are taken by constants on relations and multisets).
\<close>

record listing =
  total_res :: nat
  count_res :: nat
  bookings :: "booking list"

text \<open>\<^verbatim>\<open>parseInt(v) || d\<close>: \<^verbatim>\<open>NaN\<close> and \<^verbatim>\<open>0\<close> are falsy.\<close>

definition parsedOr :: "int option \<Rightarrow> int \<Rightarrow> int" where
  "parsedOr v d = (case v of None \<Rightarrow> d | Some n \<Rightarrow> if n = 0 then d else n)"

text \<open>
  The \<^verbatim>\<open>where\<close> object that \<^verbatim>\<open>findAll\<close> builds: empty, or
  \<^verbatim>\<open>{ status: { equals: v, mode: "insensitive" } }\<close>.
\<close>

datatype booking_where =
  WhereAll
| WhereStatusInsensitive string

text \<open>
  \<^verbatim>\<open>if (filters.status)\<close> adds the condition only for a truthy status, so a missing
  status and the empty string give the empty \<^verbatim>\<open>where\<close>.
\<close>

definition statusWhere :: "string option \<Rightarrow> booking_where" where
  "statusWhere st =
     (case st of
        None \<Rightarrow> WhereAll
      | Some v \<Rightarrow> if v = [] then WhereAll else WhereStatusInsensitive v)"

text \<open>
  The store is SQLite (the repository's documentation: "Prisma 7 with SQLite"). The
  client for SQLite has no \<^verbatim>\<open>mode\<close> argument on a string filter: it rejects a
  \<^verbatim>\<open>where\<close> that carries one before any row is read.
\<close>

definition whereAccepted :: "booking_where \<Rightarrow> bool" where
  "whereAccepted wh = (case wh of WhereAll \<Rightarrow> True | WhereStatusInsensitive v \<Rightarrow> False)"

text \<open>\<^verbatim>\<open>skip\<close> and \<^verbatim>\<open>take\<close> are 64-bit signed integers for the client.\<close>

definition inInt64 :: "int \<Rightarrow> bool" where
  "inInt64 n = (- (2 ^ 63) \<le> n \<and> n < 2 ^ 63)"

text \<open>
  \<^verbatim>\<open>orderBy: { startTime: "desc" }\<close>: a stable sort on the negated start time. The
  database promises no order among rows with equal start times; the sort keeps them in
  insertion order, and no statement below depends on that choice.
\<close>

definition orderByStartTimeDesc :: "booking list \<Rightarrow> booking list" where
  "orderByStartTimeDesc bs = sort_key (\<lambda>b. - startTime b) bs"

text \<open>
  \<^verbatim>\<open>prisma.booking.findMany({ where, skip, take, orderBy })\<close> with a \<^verbatim>\<open>where\<close>
  that \<^verbatim>\<open>findAll\<close> builds. The client rejects a \<^verbatim>\<open>where\<close> it does not accept, a
  \<^verbatim>\<open>skip\<close> or \<^verbatim>\<open>take\<close> outside the 64-bit range and a negative \<^verbatim>\<open>skip\<close>; a
  negative \<^verbatim>\<open>take\<close> reads from the end of the ordering.
\<close>

definition prisma_findMany ::
  "store \<Rightarrow> booking_where \<Rightarrow> int \<Rightarrow> int \<Rightarrow> error + booking list" where
  "prisma_findMany s wh skip tk =
     (let ordered = orderByStartTimeDesc (rows s)
      in if \<not> whereAccepted wh then Inl PrismaError
         else if \<not> inInt64 skip \<or> \<not> inInt64 tk then Inl PrismaError
         else if skip < 0 then Inl PrismaError
         else if 0 \<le> tk then Inr (take (nat tk) (drop (nat skip) ordered))
         else Inr (rev (take (nat (- tk)) (drop (nat skip) (rev ordered)))))"

text \<open>\<^verbatim>\<open>prisma.booking.count({ where })\<close>\<close>

definition prisma_count :: "store \<Rightarrow> booking_where \<Rightarrow> error + nat" where
  "prisma_count s wh =
     (if \<not> whereAccepted wh then Inl PrismaError else Inr (length (rows s)))"

text \<open>
  \<^verbatim>\<open>findAll\<close>: \<^verbatim>\<open>Promise.all\<close> rejects when one of the two queries does.
\<close>

definition findAll :: "store \<Rightarrow> filters \<Rightarrow> error + listing" where
  "findAll s f =
     (let lim = parsedOr (limit f) 10;
          off = parsedOr (offset f) 0;
          wh = statusWhere (filterStatus f)
      in case prisma_count s wh of
           Inl e \<Rightarrow> Inl e
         | Inr tot \<Rightarrow>
             (case prisma_findMany s wh off lim of
                Inl e \<Rightarrow> Inl e
              | Inr bs \<Rightarrow> Inr \<lparr>total_res = tot, count_res = length bs, bookings = bs\<rparr>))"

section \<open>The request schema\<close>

text \<open>
  \<^verbatim>\<open>bookingSchema\<close> (\<^verbatim>\<open>src/schemas/bookingSchema.js\<close>) on a body whose fields have
  been coerced to their types: what is left is the enumeration of the status and the
  refinement \<^verbatim>\<open>data.startTime < data.endTime\<close>.
\<close>

definition bookingSchema :: "booking_data \<Rightarrow> error + booking_data" where
  "bookingSchema d =
     (if status d \<notin> set [''pending'', ''confirmed'', ''cancelled''] then Inl ValidationError
      else if \<not> (startTime d < endTime d) then Inl ValidationError
      else Inr d)"

section \<open>Intervals and invariants\<close>

text \<open>
  The overlap test in the words of the specification:
  \<^verbatim>\<open>overlaps(candidate, existing)\<close> is true iff
  \<^verbatim>\<open>candidate.start < existing.end AND existing.start < candidate.end\<close>.
\<close>

definition spec_overlaps :: "'a booking_data_scheme \<Rightarrow> 'b booking_data_scheme \<Rightarrow> bool" where
  "spec_overlaps candidate existing =
     (startTime candidate < endTime existing \<and> startTime existing < endTime candidate)"

text \<open>The specification's invariant: no two rows of one station overlap.\<close>

definition no_overlap :: "store \<Rightarrow> bool" where
  "no_overlap s =
     (\<forall>a\<in>set (rows s). \<forall>b\<in>set (rows s).
        bookingId a \<noteq> bookingId b \<longrightarrow> stationId a = stationId b \<longrightarrow> \<not> spec_overlaps a b)"

text \<open>
  What the auto-increment key gives: the keys of the rows are distinct, positive and
  below the counter.
\<close>

definition wf_store :: "store \<Rightarrow> bool" where
  "wf_store s =
     (distinct (map bookingId (rows s)) \<and> 0 < nextId s \<and>
      (\<forall>b\<in>set (rows s). 0 < bookingId b \<and> bookingId b < nextId s))"

section \<open>Calls in flight\<close>

text \<open>
  The service functions are \<^verbatim>\<open>async\<close>: a call gives up control at each
  \<^verbatim>\<open>await\<close>, and other calls may run their own queries before it goes on. A task is
  a call of \<^verbatim>\<open>create\<close> or \<^verbatim>\<open>update\<close> together with the point it has reached and the
  values it holds there; a step runs it up to its next \<^verbatim>\<open>await\<close>, which is one query on
  the table. Neither function opens a transaction.
\<close>

datatype task =
  CreateStart booking_data
| CreateChecked booking_data bool
| UpdateStart int booking_patch
| UpdateFound int booking_patch booking
| UpdateChecked int booking_patch bool
| Done "error + booking"

fun step :: "store \<Rightarrow> task \<Rightarrow> task \<times> store" where
  "step s (CreateStart d) =
     (CreateChecked d (isStationAvailable s (stationId d) (startTime d) (endTime d) None), s)"
| "step s (CreateChecked d available) =
     (if \<not> available then (Done (Inl Conflict), s)
      else (let (r, s') = prisma_create s d in (Done r, s')))"
| "step s (UpdateStart i p) =
     (case findById s i of
        (Inl e, s1) \<Rightarrow> (Done (Inl e), s1)
      | (Inr b, s1) \<Rightarrow> (UpdateFound i p b, s1))"
| "step s (UpdateFound i p b) =
     (UpdateChecked i p
        (isStationAvailable s
           (nullish (stationIdOpt p) (stationId b))
           (nullish (startTimeOpt p) (startTime b))
           (nullish (endTimeOpt p) (endTime b))
           (Some i)), s)"
| "step s (UpdateChecked i p available) =
     (if \<not> available then (Done (Inl Conflict), s)
      else (let (r, s') = prisma_update s i p in (Done r, s')))"
| "step s (Done r) = (Done r, s)"

text \<open>A schedule names, step after step, the task that runs next.\<close>

fun run :: "nat list \<Rightarrow> store \<times> task list \<Rightarrow> store \<times> task list" where
  "run [] c = c"
| "run (k # ks) (s, ts) =
     (if k < length ts
      then (let (t', s') = step s (ts ! k) in run ks (s', ts[k := t']))
      else run ks (s, ts))"

section \<open>Example data\<close>

text \<open>No booking yet; one user, with key 1, and one station, with key 2.\<close>

definition emptyStore :: store where
  "emptyStore = \<lparr>rows = [], nextId = 1, users = [1], stations = [2]\<rparr>"

definition request :: "int \<Rightarrow> int \<Rightarrow> int \<Rightarrow> string \<Rightarrow> booking_data" where
  "request sid st en stat =
     \<lparr>userId = 1, stationId = sid, startTime = st, endTime = en, status = stat\<rparr>"

text \<open>A table with one row: station 2 from 14 to 16, key 1.\<close>

definition oneRow :: "string \<Rightarrow> store" where
  "oneRow stat = emptyStore\<lparr>rows := [mkBooking (request 2 14 16 stat) 1], nextId := 2\<rparr>"

text \<open>Two back-to-back rows on station 2: 14 to 16 under key 1, 16 to 18 under key 2.\<close>

definition twoRows :: store where
  "twoRows =
     emptyStore
       \<lparr>rows := [mkBooking (request 2 14 16 ''confirmed'') 1,
                 mkBooking (request 2 16 18 ''confirmed'') 2],
        nextId := 3\<rparr>"

text \<open>
  Two overlapping rows on station 2, 14 to 16 under key 1 and 15 to 17 under key 2: the
  table that two interleaved calls of \<^verbatim>\<open>create\<close> leave.
\<close>

definition racedRows :: store where
  "racedRows =
     emptyStore
       \<lparr>rows := [mkBooking (request 2 14 16 ''pending'') 1,
                 mkBooking (request 2 15 17 ''pending'') 2],
        nextId := 3\<rparr>"

text \<open>A table whose only row has an empty window: station 2, from 15 to 15.\<close>

definition emptyWindowRow :: store where
  "emptyWindowRow =
     emptyStore\<lparr>rows := [mkBooking (request 2 15 15 ''pending'') 1], nextId := 2\<rparr>"


definition noPatch :: booking_patch where
  "noPatch = \<lparr>userIdOpt = None, stationIdOpt = None, startTimeOpt = None,
              endTimeOpt = None, statusOpt = None\<rparr>"

text \<open>The \<^verbatim>\<open>data\<close> object \<^verbatim>\<open>{ startTime, endTime }\<close>.\<close>

definition moveTo :: "int \<Rightarrow> int \<Rightarrow> booking_patch" where
  "moveTo st en = noPatch\<lparr>startTimeOpt := Some st, endTimeOpt := Some en\<rparr>"

section \<open>Basic facts\<close>

lemma isStationAvailable_iff:
  "isStationAvailable s sid st en ex = (\<forall>b\<in>set (rows s). \<not> overlapWhere sid st en ex b)"
  by (simp add: isStationAvailable_def filter_empty_conv)

lemma create_unavailable:
  "\<not> isStationAvailable s (stationId d) (startTime d) (endTime d) None \<Longrightarrow>
   create s d = (Inl Conflict, s)"
  by (simp add: create_def)

lemma create_available:
  "isStationAvailable s (stationId d) (startTime d) (endTime d) None \<Longrightarrow>
   create s d = prisma_create s d"
  by (simp add: create_def)

lemma prisma_create_refs:
  "dataRefsExist s d \<Longrightarrow>
   prisma_create s d =
     (Inr (mkBooking d (nextId s)),
      s\<lparr>rows := rows s @ [mkBooking d (nextId s)], nextId := nextId s + 1\<rparr>)"
  by (simp add: prisma_create_def Let_def)

lemma prisma_create_no_refs:
  "\<not> dataRefsExist s d \<Longrightarrow> prisma_create s d = (Inl ForeignKey, s)"
  by (simp add: prisma_create_def)

lemma create_inserts:
  "isStationAvailable s (stationId d) (startTime d) (endTime d) None \<Longrightarrow>
   dataRefsExist s d \<Longrightarrow>
   create s d =
     (Inr (mkBooking d (nextId s)),
      s\<lparr>rows := rows s @ [mkBooking d (nextId s)], nextId := nextId s + 1\<rparr>)"
  by (simp add: create_available prisma_create_refs)

lemma create_rejected:
  "isStationAvailable s (stationId d) (startTime d) (endTime d) None \<Longrightarrow>
   \<not> dataRefsExist s d \<Longrightarrow> create s d = (Inl ForeignKey, s)"
  by (simp add: create_available prisma_create_no_refs)

lemma create_Conflict_iff:
  "fst (create s d) = Inl Conflict \<longleftrightarrow>
   \<not> isStationAvailable s (stationId d) (startTime d) (endTime d) None"
  by (cases "isStationAvailable s (stationId d) (startTime d) (endTime d) None";
      cases "dataRefsExist s d")
     (simp_all add: create_inserts create_rejected create_unavailable)

section \<open>Creation and overlap\<close>

text \<open>
  Claim C1, as amended. \<^verbatim>\<open>create(B)\<close> fails with \<open>Conflict\<close> exactly when some stored
  row \<open>A\<close> of the same station has \<open>A.start < B.end\<close> and \<open>B.start < A.end\<close>. When \<open>A\<close> is
  the only row and is on \<open>B\<close>'s station, \<^verbatim>\<open>create(B)\<close> fails with \<open>Conflict\<close> and leaves
  the table as it was if the two windows overlap; if they do not, it appends \<open>B\<close> under the
  next key when the user and the station of \<open>B\<close> exist, and otherwise fails with the
  store's foreign-key error and leaves the table as it was. Back-to-back windows
  (\<open>A.end = B.start\<close>) never conflict.
\<close>

theorem create_conflict_iff_overlap:
  "(fst (create s B) = Inl Conflict \<longleftrightarrow>
      (\<exists>A\<in>set (rows s). stationId A = stationId B \<and>
         startTime A < endTime B \<and> startTime B < endTime A))
   \<and> (rows s = [A] \<and> stationId A = stationId B \<longrightarrow>
        (if startTime A < endTime B \<and> startTime B < endTime A
         then create s B = (Inl Conflict, s)
         else if dataRefsExist s B
         then create s B =
                (Inr (mkBooking B (nextId s)),
                 s\<lparr>rows := [A, mkBooking B (nextId s)], nextId := nextId s + 1\<rparr>)
         else create s B = (Inl ForeignKey, s)))
   \<and> (rows s = [A] \<and> stationId A = stationId B \<and> endTime A = startTime B \<longrightarrow>
        fst (create s B) \<noteq> Inl Conflict \<and>
        (dataRefsExist s B \<longrightarrow> fst (create s B) = Inr (mkBooking B (nextId s))))"
proof (intro conjI impI)
  show "fst (create s B) = Inl Conflict \<longleftrightarrow>
      (\<exists>A\<in>set (rows s). stationId A = stationId B \<and>
         startTime A < endTime B \<and> startTime B < endTime A)"
    by (auto simp: create_Conflict_iff isStationAvailable_iff overlapWhere_def)
next
  assume h: "rows s = [A] \<and> stationId A = stationId B"
  then have av: "isStationAvailable s (stationId B) (startTime B) (endTime B) None
      \<longleftrightarrow> \<not> (startTime A < endTime B \<and> startTime B < endTime A)"
    by (simp add: isStationAvailable_iff overlapWhere_def)
  show "if startTime A < endTime B \<and> startTime B < endTime A
         then create s B = (Inl Conflict, s)
         else if dataRefsExist s B
         then create s B =
                (Inr (mkBooking B (nextId s)),
                 s\<lparr>rows := [A, mkBooking B (nextId s)], nextId := nextId s + 1\<rparr>)
         else create s B = (Inl ForeignKey, s)"
  proof (cases "startTime A < endTime B \<and> startTime B < endTime A")
    case True
    with av show ?thesis by (simp add: create_unavailable)
  next
    case False
    with av have a: "isStationAvailable s (stationId B) (startTime B) (endTime B) None"
      by simp
    show ?thesis
    proof (cases "dataRefsExist s B")
      case True
      from create_inserts [OF a True] h False True show ?thesis by simp
    next
      case r: False
      from create_rejected [OF a r] False r show ?thesis by simp
    qed
  qed
next
  assume h: "rows s = [A] \<and> stationId A = stationId B \<and> endTime A = startTime B"
  then have a: "isStationAvailable s (stationId B) (startTime B) (endTime B) None"
    by (simp add: isStationAvailable_iff overlapWhere_def)
  then show "fst (create s B) \<noteq> Inl Conflict" by (simp add: create_Conflict_iff)
  assume "dataRefsExist s B"
  from create_inserts [OF a this] show "fst (create s B) = Inr (mkBooking B (nextId s))"
    by simp
qed

theorem create_conflict_iff_overlap_witness:
  "create (oneRow ''confirmed'') (request 2 15 17 ''pending'')
     = (Inl Conflict, oneRow ''confirmed'')
   \<and> create (oneRow ''confirmed'') (request 2 16 18 ''pending'')
     = (Inr (mkBooking (request 2 16 18 ''pending'') 2),
        emptyStore\<lparr>rows := [mkBooking (request 2 14 16 ''confirmed'') 1,
                             mkBooking (request 2 16 18 ''pending'') 2], nextId := 3\<rparr>)
   \<and> fst (create (oneRow ''confirmed'') (request 2 12 14 ''pending''))
     \<noteq> Inl Conflict"
  using create_conflict_iff_overlap
          [of "oneRow ''confirmed''" "request 2 15 17 ''pending''"
              "mkBooking (request 2 14 16 ''confirmed'') 1"]
        create_conflict_iff_overlap
          [of "oneRow ''confirmed''" "request 2 16 18 ''pending''"
              "mkBooking (request 2 14 16 ''confirmed'') 1"]
        create_conflict_iff_overlap
          [of "oneRow ''confirmed''" "request 2 12 14 ''pending''"
              "mkBooking (request 2 14 16 ''confirmed'') 1"]
  by (simp add: oneRow_def emptyStore_def request_def mkBooking_def dataRefsExist_def)

text \<open>
  The claim as stated fails: with the row from 14 to 16 the only one, the candidate from
  16 to 18 on the same station does not overlap it, yet \<^verbatim>\<open>create\<close> does not succeed when
  the candidate's user does not exist; the store rejects the insert.
\<close>

theorem create_unknown_user_counterexample:
  "rows (oneRow ''confirmed'') = [mkBooking (request 2 14 16 ''confirmed'') 1]
   \<and> stationId ((request 2 16 18 ''pending'')\<lparr>userId := 7\<rparr>)
       = stationId (mkBooking (request 2 14 16 ''confirmed'') 1)
   \<and> \<not> (startTime (mkBooking (request 2 14 16 ''confirmed'') 1)
          < endTime ((request 2 16 18 ''pending'')\<lparr>userId := 7\<rparr>) \<and>
        startTime ((request 2 16 18 ''pending'')\<lparr>userId := 7\<rparr>)
          < endTime (mkBooking (request 2 14 16 ''confirmed'') 1))
   \<and> create (oneRow ''confirmed'') ((request 2 16 18 ''pending'')\<lparr>userId := 7\<rparr>)
       = (Inl ForeignKey, oneRow ''confirmed'')"
  by (simp add: create_def prisma_create_def dataRefsExist_def isStationAvailable_def
      overlapWhere_def oneRow_def emptyStore_def request_def mkBooking_def Let_def)

section \<open>Cancelled bookings\<close>



section \<open>A conflict writes nothing\<close>

lemma findById_store: "snd (findById s i) = s"
  by (simp add: findById_def split: option.splits)

lemma prisma_update_not_Conflict: "fst (prisma_update s i p) \<noteq> Inl Conflict"
  by (simp add: prisma_update_def split: option.splits)

text \<open>
  Claim C5. Whenever \<^verbatim>\<open>create\<close> or \<^verbatim>\<open>update\<close> fails with \<open>Conflict\<close>, the table after
  the call is the table before it: no row was added and no field of any row changed.
\<close>

theorem conflict_leaves_store_unchanged:
  "(fst (create s d) = Inl Conflict \<longrightarrow> snd (create s d) = s)
   \<and> (fst (update s i p) = Inl Conflict \<longrightarrow> snd (update s i p) = s)"
proof (intro conjI impI)
  assume "fst (create s d) = Inl Conflict"
  then have "\<not> isStationAvailable s (stationId d) (startTime d) (endTime d) None"
    by (simp add: create_Conflict_iff)
  then show "snd (create s d) = s" by (simp add: create_unavailable)
next
  assume c: "fst (update s i p) = Inl Conflict"
  show "snd (update s i p) = s"
  proof (cases "prisma_findUnique s i")
    case None
    then show ?thesis by (simp add: update_def findById_def)
  next
    case (Some b)
    show ?thesis
    proof (cases "isStationAvailable s
                   (nullish (stationIdOpt p) (stationId b))
                   (nullish (startTimeOpt p) (startTime b))
                   (nullish (endTimeOpt p) (endTime b)) (Some i)")
      case True
      with Some have "update s i p = prisma_update s i p"
        by (simp add: update_def findById_def)
      with c prisma_update_not_Conflict [of s i p] show ?thesis by simp
    next
      case False
      with Some show ?thesis by (simp add: update_def findById_def)
    qed
  qed
qed

theorem conflict_leaves_store_unchanged_witness:
  "fst (create twoRows (request 2 15 17 ''pending'')) = Inl Conflict
   \<and> snd (create twoRows (request 2 15 17 ''pending'')) = twoRows
   \<and> fst (update twoRows 1 (moveTo 16 18)) = Inl Conflict
   \<and> snd (update twoRows 1 (moveTo 16 18)) = twoRows"
proof -
  have c: "fst (create twoRows (request 2 15 17 ''pending'')) = Inl Conflict"
    by (simp add: create_def isStationAvailable_def overlapWhere_def twoRows_def
        emptyStore_def request_def mkBooking_def)
  have u: "fst (update twoRows 1 (moveTo 16 18)) = Inl Conflict"
    by (simp add: update_def findById_def prisma_findUnique_def isStationAvailable_def
        overlapWhere_def twoRows_def emptyStore_def request_def mkBooking_def moveTo_def
        noPatch_def nullish_def)
  from conflict_leaves_store_unchanged
         [of twoRows "request 2 15 17 ''pending''" 1 "moveTo 16 18"] c u
  show ?thesis by simp
qed

section \<open>Validation of the window\<close>

text \<open>
  Claim C6, as amended. \<^verbatim>\<open>create\<close> itself never fails with \<open>ValidationError\<close>: the check
  \<open>startTime < endTime\<close> is the refinement of the request schema \<^verbatim>\<open>bookingSchema\<close>. The
  schema rejects every body with \<open>startTime \<ge> endTime\<close> with \<open>ValidationError\<close> and passes
  on unchanged what it accepts; \<^verbatim>\<open>create\<close> called with \<open>startTime \<ge> endTime\<close> inserts the
  record whenever the availability query finds no row and the user and the station of the
  record exist.
\<close>

theorem create_does_not_validate:
  "fst (create s d) \<noteq> Inl ValidationError
   \<and> (endTime d \<le> startTime d \<longrightarrow> bookingSchema d = Inl ValidationError)
   \<and> (bookingSchema d = Inr d' \<longrightarrow> d' = d \<and> startTime d < endTime d)
   \<and> (endTime d \<le> startTime d \<and>
      isStationAvailable s (stationId d) (startTime d) (endTime d) None \<and>
      dataRefsExist s d \<longrightarrow>
        create s d =
          (Inr (mkBooking d (nextId s)),
           s\<lparr>rows := rows s @ [mkBooking d (nextId s)], nextId := nextId s + 1\<rparr>))"
proof (intro conjI impI)
  show "fst (create s d) \<noteq> Inl ValidationError"
    by (cases "isStationAvailable s (stationId d) (startTime d) (endTime d) None";
        cases "dataRefsExist s d")
       (simp_all add: create_inserts create_rejected create_unavailable)
next
  assume "endTime d \<le> startTime d"
  then show "bookingSchema d = Inl ValidationError" by (simp add: bookingSchema_def)
next
  assume "bookingSchema d = Inr d'"
  then show "d' = d" by (simp add: bookingSchema_def split: if_splits)
next
  assume "bookingSchema d = Inr d'"
  then show "startTime d < endTime d" by (simp add: bookingSchema_def split: if_splits)
next
  assume "endTime d \<le> startTime d \<and>
      isStationAvailable s (stationId d) (startTime d) (endTime d) None \<and>
      dataRefsExist s d"
  then show "create s d =
          (Inr (mkBooking d (nextId s)),
           s\<lparr>rows := rows s @ [mkBooking d (nextId s)], nextId := nextId s + 1\<rparr>)"
    by (simp add: create_inserts)
qed

theorem create_does_not_validate_witness:
  "bookingSchema (request 2 15 15 ''pending'') = Inl ValidationError
   \<and> bookingSchema (request 2 14 16 ''pending'') = Inr (request 2 14 16 ''pending'')
   \<and> create emptyStore (request 2 15 15 ''pending'') =
       (Inr (mkBooking (request 2 15 15 ''pending'') 1), emptyWindowRow)"
proof -
  have a: "isStationAvailable emptyStore 2 15 15 None"
    by (simp add: isStationAvailable_def emptyStore_def)
  have r: "dataRefsExist emptyStore (request 2 15 15 ''pending'')"
    by (simp add: dataRefsExist_def emptyStore_def request_def)
  have b: "bookingSchema (request 2 14 16 ''pending'') = Inr (request 2 14 16 ''pending'')"
    by (simp add: bookingSchema_def request_def)
  from create_does_not_validate
         [of emptyStore "request 2 15 15 ''pending''" "request 2 15 15 ''pending''"]
       create_does_not_validate
         [of emptyStore "request 2 14 16 ''pending''" "request 2 14 16 ''pending''"] a r b
  show ?thesis by (simp add: request_def emptyStore_def emptyWindowRow_def)
qed

text \<open>
  The claim as stated fails: on the empty table \<^verbatim>\<open>create\<close> with the window from 15 to 15
  does not fail with \<open>ValidationError\<close> and inserts the row.
\<close>

theorem create_validation_counterexample:
  "endTime (request 2 15 15 ''pending'') \<le> startTime (request 2 15 15 ''pending'')
   \<and> fst (create emptyStore (request 2 15 15 ''pending'')) \<noteq> Inl ValidationError
   \<and> rows (snd (create emptyStore (request 2 15 15 ''pending'')))
       = [mkBooking (request 2 15 15 ''pending'') 1]"
  by (simp add: create_def prisma_create_def dataRefsExist_def isStationAvailable_def
      emptyStore_def request_def mkBooking_def Let_def)

section \<open>The status filter of findAll\<close>

lemma findAll_status_rejected:
  "filterStatus f = Some v \<Longrightarrow> v \<noteq> [] \<Longrightarrow> findAll s f = Inl PrismaError"
  by (simp add: findAll_def statusWhere_def prisma_count_def whereAccepted_def)

text \<open>
  Claim C9, as amended. A status filter that is missing or the empty string behaves as no
  status filter. Every other value, recognized or not, is put into the \<^verbatim>\<open>where\<close> of both
  queries as a condition with \<^verbatim>\<open>mode: "insensitive"\<close>; it is never dropped for being
  unrecognized, and the client of the store rejects the query for every such value.
\<close>

theorem status_filter_semantics:
  "(filterStatus f = None \<or> filterStatus f = Some [] \<longrightarrow>
      findAll s f = findAll s (f\<lparr>filterStatus := None\<rparr>))
   \<and> (filterStatus f = Some v \<and> v \<noteq> [] \<longrightarrow>
        statusWhere (filterStatus f) = WhereStatusInsensitive v \<and>
        findAll s f = Inl PrismaError)"
proof (intro conjI impI)
  assume "filterStatus f = None \<or> filterStatus f = Some []"
  then have "statusWhere (filterStatus f) = statusWhere None"
    by (auto simp: statusWhere_def)
  then show "findAll s f = findAll s (f\<lparr>filterStatus := None\<rparr>)"
    by (simp add: findAll_def)
next
  assume h: "filterStatus f = Some v \<and> v \<noteq> []"
  then show "statusWhere (filterStatus f) = WhereStatusInsensitive v"
    by (simp add: statusWhere_def)
  from h show "findAll s f = Inl PrismaError"
    by (simp add: findAll_status_rejected)
qed

theorem status_filter_semantics_witness:
  "findAll (oneRow ''pending'') \<lparr>filterStatus = Some [], limit = None, offset = None\<rparr>
     = findAll (oneRow ''pending'') \<lparr>filterStatus = None, limit = None, offset = None\<rparr>
   \<and> findAll (oneRow ''pending'')
       \<lparr>filterStatus = Some ''pending'', limit = None, offset = None\<rparr>
     = Inl PrismaError"
  using status_filter_semantics
          [of "\<lparr>filterStatus = Some [], limit = None, offset = None\<rparr>"
              "oneRow ''pending''" "''pending''"]
        status_filter_semantics
          [of "\<lparr>filterStatus = Some ''pending'', limit = None, offset = None\<rparr>"
              "oneRow ''pending''" "''pending''"]
  by simp

text \<open>
  The claim as stated fails: on a table with one pending booking the call with the
  unrecognized status \<^verbatim>\<open>archived\<close> is rejected, while the call without a status filter
  gives total 1 and the booking.
\<close>

theorem unrecognized_status_counterexample:
  "''archived'' \<notin> set [''pending'', ''confirmed'', ''cancelled'']
   \<and> findAll (oneRow ''pending'')
         \<lparr>filterStatus = Some ''archived'', limit = None, offset = None\<rparr>
       = Inl PrismaError
   \<and> findAll (oneRow ''pending'') \<lparr>filterStatus = None, limit = None, offset = None\<rparr>
       = Inr \<lparr>total_res = 1, count_res = 1,
              bookings = [mkBooking (request 2 14 16 ''pending'') 1]\<rparr>"
  by (simp add: findAll_def prisma_findMany_def prisma_count_def statusWhere_def
      whereAccepted_def inInt64_def parsedOr_def orderByStartTimeDesc_def oneRow_def
      emptyStore_def request_def mkBooking_def Let_def)

section \<open>Empty and inverted windows\<close>

text \<open>
  Claim C10, as amended. For a candidate window with \<open>startTime \<ge> endTime\<close> the
  availability check reports no conflict exactly when no stored row of the station has
  \<open>A.start < candidate.end\<close> and \<open>candidate.start < A.end\<close>; \<^verbatim>\<open>create\<close> then inserts the
  degenerate reservation when its user and station exist. Stored rows of the station that
  are themselves degenerate never block a degenerate candidate; a stored degenerate row
  \<open>D\<close> does block every candidate of its station with \<open>D.start < candidate.end\<close> and
  \<open>candidate.start < D.end\<close>.
\<close>

theorem degenerate_window_availability:
  "(endTime d \<le> startTime d \<longrightarrow>
     (isStationAvailable s (stationId d) (startTime d) (endTime d) None \<longleftrightarrow>
        \<not> (\<exists>A\<in>set (rows s). stationId A = stationId d \<and>
              startTime A < endTime d \<and> startTime d < endTime A))
     \<and> (isStationAvailable s (stationId d) (startTime d) (endTime d) None \<and>
        dataRefsExist s d \<longrightarrow>
          create s d =
            (Inr (mkBooking d (nextId s)),
             s\<lparr>rows := rows s @ [mkBooking d (nextId s)], nextId := nextId s + 1\<rparr>))
     \<and> ((\<forall>A\<in>set (rows s). stationId A = stationId d \<longrightarrow> endTime A \<le> startTime A)
          \<longrightarrow> isStationAvailable s (stationId d) (startTime d) (endTime d) None))
   \<and> (D \<in> set (rows s) \<and> endTime D \<le> startTime D \<and> stationId D = stationId c \<and>
      startTime D < endTime c \<and> startTime c < endTime D \<longrightarrow>
        create s c = (Inl Conflict, s))"
proof (intro conjI impI)
  assume h: "D \<in> set (rows s) \<and> endTime D \<le> startTime D \<and> stationId D = stationId c \<and>
      startTime D < endTime c \<and> startTime c < endTime D"
  then have "overlapWhere (stationId c) (startTime c) (endTime c) None D"
    by (simp add: overlapWhere_def)
  with h have "\<not> isStationAvailable s (stationId c) (startTime c) (endTime c) None"
    by (auto simp: isStationAvailable_iff)
  then show "create s c = (Inl Conflict, s)" by (rule create_unavailable)
next
  show "isStationAvailable s (stationId d) (startTime d) (endTime d) None \<longleftrightarrow>
        \<not> (\<exists>A\<in>set (rows s). stationId A = stationId d \<and>
              startTime A < endTime d \<and> startTime d < endTime A)"
    by (auto simp: isStationAvailable_iff overlapWhere_def)
next
  assume "isStationAvailable s (stationId d) (startTime d) (endTime d) None \<and>
        dataRefsExist s d"
  then show "create s d =
            (Inr (mkBooking d (nextId s)),
             s\<lparr>rows := rows s @ [mkBooking d (nextId s)], nextId := nextId s + 1\<rparr>)"
    by (simp add: create_inserts)
next
  assume d: "endTime d \<le> startTime d"
    and a: "\<forall>A\<in>set (rows s). stationId A = stationId d \<longrightarrow> endTime A \<le> startTime A"
  show "isStationAvailable s (stationId d) (startTime d) (endTime d) None"
    unfolding isStationAvailable_iff overlapWhere_def
  proof
    fix A assume "A \<in> set (rows s)"
    with a have "stationId A = stationId d \<longrightarrow> endTime A \<le> startTime A" by blast
    with d show "\<not> (stationId A = stationId d \<and> startTime A < endTime d \<and>
        startTime d < endTime A \<and> (case None of None \<Rightarrow> True
          | Some x \<Rightarrow> if x = 0 then True else \<not> bookingId A = x))"
      by auto
  qed
qed

theorem degenerate_window_availability_witness:
  "create emptyWindowRow (request 2 15 15 ''confirmed'') =
     (Inr (mkBooking (request 2 15 15 ''confirmed'') 2),
      emptyStore\<lparr>rows := [mkBooking (request 2 15 15 ''pending'') 1,
                           mkBooking (request 2 15 15 ''confirmed'') 2], nextId := 3\<rparr>)
   \<and> create (oneRow ''confirmed'') (request 2 20 18 ''pending'') =
     (Inr (mkBooking (request 2 20 18 ''pending'') 2),
      emptyStore\<lparr>rows := [mkBooking (request 2 14 16 ''confirmed'') 1,
                           mkBooking (request 2 20 18 ''pending'') 2], nextId := 3\<rparr>)
   \<and> create emptyWindowRow (request 2 14 16 ''pending'') = (Inl Conflict, emptyWindowRow)"
  using degenerate_window_availability
          [of "request 2 15 15 ''confirmed''" emptyWindowRow
              "mkBooking (request 2 15 15 ''pending'') 1" "request 2 14 16 ''pending''"]
        degenerate_window_availability
          [of "request 2 20 18 ''pending''" "oneRow ''confirmed''"
              "mkBooking (request 2 15 15 ''pending'') 1" "request 2 14 16 ''pending''"]
  by (simp add: emptyWindowRow_def oneRow_def emptyStore_def request_def mkBooking_def
      dataRefsExist_def)

text \<open>
  The claim as stated fails both ways: the empty window from 15 to 15 conflicts with the
  stored row from 14 to 16, and the stored empty window from 15 to 15 blocks the candidate
  from 14 to 16.
\<close>

theorem degenerate_window_counterexample:
  "endTime (request 2 15 15 ''pending'') \<le> startTime (request 2 15 15 ''pending'')
   \<and> \<not> isStationAvailable (oneRow ''confirmed'') 2 15 15 None
   \<and> create (oneRow ''confirmed'') (request 2 15 15 ''pending'')
       = (Inl Conflict, oneRow ''confirmed'')
   \<and> create emptyWindowRow (request 2 14 16 ''pending'') = (Inl Conflict, emptyWindowRow)"
  by (simp add: create_def isStationAvailable_def overlapWhere_def oneRow_def
      emptyWindowRow_def emptyStore_def request_def mkBooking_def Let_def)

section \<open>Rows found by their key\<close>

lemma find_key_distinct:
  "distinct (map f xs) \<Longrightarrow> x \<in> set xs \<Longrightarrow> find (\<lambda>b. f b = f x) xs = Some x"
proof (induction xs)
  case Nil
  then show ?case by simp
next
  case (Cons y ys)
  show ?case
  proof (cases "y = x")
    case True
    then show ?thesis by simp
  next
    case False
    with Cons.prems have xin: "x \<in> set ys" by simp
    with Cons.prems have "f y \<noteq> f x" by auto
    with Cons.IH Cons.prems xin show ?thesis by simp
  qed
qed

lemma prisma_findUnique_stored:
  "wf_store s \<Longrightarrow> X \<in> set (rows s) \<Longrightarrow> prisma_findUnique s (bookingId X) = Some X"
  by (simp add: wf_store_def prisma_findUnique_def find_key_distinct)

lemma prisma_findUnique_absent:
  "i \<notin> bookingId ` set (rows s) \<Longrightarrow> prisma_findUnique s i = None"
  by (auto simp: prisma_findUnique_def find_None_iff)

lemma same_key_same_row:
  "wf_store s \<Longrightarrow> X \<in> set (rows s) \<Longrightarrow> r \<in> set (rows s) \<Longrightarrow>
   bookingId r = bookingId X \<longleftrightarrow> r = X"
  by (auto simp: wf_store_def distinct_map inj_on_def)

lemma stored_key_nonzero: "wf_store s \<Longrightarrow> X \<in> set (rows s) \<Longrightarrow> bookingId X \<noteq> 0"
  by (auto simp: wf_store_def)

lemma applyPatch_fields:
  "stationId (applyPatch X p) = nullish (stationIdOpt p) (stationId X)"
  "startTime (applyPatch X p) = nullish (startTimeOpt p) (startTime X)"
  "endTime (applyPatch X p) = nullish (endTimeOpt p) (endTime X)"
  "bookingId (applyPatch X p) = bookingId X"
  by (simp_all add: applyPatch_def)

lemma update_stored:
  assumes "wf_store s" "X \<in> set (rows s)"
  shows "update s (bookingId X) p =
     (if isStationAvailable s
           (nullish (stationIdOpt p) (stationId X))
           (nullish (startTimeOpt p) (startTime X))
           (nullish (endTimeOpt p) (endTime X)) (Some (bookingId X))
      then (if patchRefsExist s p
            then (Inr (applyPatch X p),
                  s\<lparr>rows := map (\<lambda>r. if r = X then applyPatch X p else r) (rows s)\<rparr>)
            else (Inl ForeignKey, s))
      else (Inl Conflict, s))"
proof -
  have m: "map (\<lambda>r. if bookingId r = bookingId X then applyPatch r p else r) (rows s)
      = map (\<lambda>r. if r = X then applyPatch X p else r) (rows s)"
    using same_key_same_row [OF assms] by (intro map_cong) auto
  from prisma_findUnique_stored [OF assms] m show ?thesis
    by (simp add: update_def findById_def prisma_update_def)
qed

lemma available_excluding_iff:
  "i \<noteq> 0 \<Longrightarrow>
   isStationAvailable s sid st en (Some i) \<longleftrightarrow>
   \<not> (\<exists>r\<in>set (rows s). bookingId r \<noteq> i \<and> stationId r = sid \<and>
         startTime r < en \<and> st < endTime r)"
  by (auto simp: isStationAvailable_iff overlapWhere_def)

section \<open>Update\<close>

text \<open>
  Claim C3. For a row \<open>X\<close> of a table whose keys are those of the auto-increment column,
  \<^verbatim>\<open>update(X.id, data)\<close> fails with \<open>Conflict\<close> exactly when a row with another key, on
  the station of the merged data, overlaps the merged window; \<open>X\<close> itself is never counted.
  Otherwise it writes the merged row in the place of \<open>X\<close> when the user and the station
  that \<^verbatim>\<open>data\<close> names exist, and fails with the store's foreign-key error, the table
  unchanged, when one does not. In the merged row each of station, start and end is the
  value of \<^verbatim>\<open>data\<close> when it has one and the value of \<open>X\<close> when not. On a table without
  overlaps, an update that keeps the station and moves the window to itself or to a part
  of itself never fails with \<open>Conflict\<close>.
\<close>

theorem update_excludes_itself:
  assumes "wf_store s" and "X \<in> set (rows s)"
  shows
    "(fst (update s (bookingId X) p) = Inl Conflict \<longleftrightarrow>
        (\<exists>r\<in>set (rows s). bookingId r \<noteq> bookingId X \<and>
           stationId r = nullish (stationIdOpt p) (stationId X) \<and>
           startTime r < nullish (endTimeOpt p) (endTime X) \<and>
           nullish (startTimeOpt p) (startTime X) < endTime r))
     \<and> (fst (update s (bookingId X) p) \<noteq> Inl Conflict \<longrightarrow>
          (if patchRefsExist s p
           then update s (bookingId X) p =
                  (Inr (applyPatch X p),
                   s\<lparr>rows := map (\<lambda>r. if r = X then applyPatch X p else r) (rows s)\<rparr>)
           else update s (bookingId X) p = (Inl ForeignKey, s)))
     \<and> (stationId (applyPatch X p) = (case stationIdOpt p of None \<Rightarrow> stationId X | Some v \<Rightarrow> v)
        \<and> startTime (applyPatch X p) = (case startTimeOpt p of None \<Rightarrow> startTime X | Some v \<Rightarrow> v)
        \<and> endTime (applyPatch X p) = (case endTimeOpt p of None \<Rightarrow> endTime X | Some v \<Rightarrow> v)
        \<and> bookingId (applyPatch X p) = bookingId X)
     \<and> (no_overlap s \<and>
        stationId (applyPatch X p) = stationId X \<and>
        startTime X \<le> startTime (applyPatch X p) \<and> endTime (applyPatch X p) \<le> endTime X
        \<longrightarrow> fst (update s (bookingId X) p) \<noteq> Inl Conflict)"
proof -
  let ?sid = "nullish (stationIdOpt p) (stationId X)"
  let ?st = "nullish (startTimeOpt p) (startTime X)"
  let ?en = "nullish (endTimeOpt p) (endTime X)"
  let ?other = "\<exists>r\<in>set (rows s). bookingId r \<noteq> bookingId X \<and> stationId r = ?sid \<and>
           startTime r < ?en \<and> ?st < endTime r"
  have nz: "bookingId X \<noteq> 0" using assms by (rule stored_key_nonzero)
  have av: "isStationAvailable s ?sid ?st ?en (Some (bookingId X)) \<longleftrightarrow> \<not> ?other"
    using nz by (rule available_excluding_iff)
  have c: "fst (update s (bookingId X) p) = Inl Conflict \<longleftrightarrow> ?other"
    using av by (auto simp: update_stored [OF assms])
  have ok: "fst (update s (bookingId X) p) \<noteq> Inl Conflict \<longrightarrow>
          (if patchRefsExist s p
           then update s (bookingId X) p =
                  (Inr (applyPatch X p),
                   s\<lparr>rows := map (\<lambda>r. if r = X then applyPatch X p else r) (rows s)\<rparr>)
           else update s (bookingId X) p = (Inl ForeignKey, s))"
    by (simp add: update_stored [OF assms])
  have fields: "stationId (applyPatch X p) = (case stationIdOpt p of None \<Rightarrow> stationId X | Some v \<Rightarrow> v)
        \<and> startTime (applyPatch X p) = (case startTimeOpt p of None \<Rightarrow> startTime X | Some v \<Rightarrow> v)
        \<and> endTime (applyPatch X p) = (case endTimeOpt p of None \<Rightarrow> endTime X | Some v \<Rightarrow> v)
        \<and> bookingId (applyPatch X p) = bookingId X"
    by (simp add: applyPatch_def nullish_def)
  have self: "no_overlap s \<and>
        stationId (applyPatch X p) = stationId X \<and>
        startTime X \<le> startTime (applyPatch X p) \<and> endTime (applyPatch X p) \<le> endTime X
        \<longrightarrow> fst (update s (bookingId X) p) \<noteq> Inl Conflict"
  proof
    assume h: "no_overlap s \<and>
        stationId (applyPatch X p) = stationId X \<and>
        startTime X \<le> startTime (applyPatch X p) \<and> endTime (applyPatch X p) \<le> endTime X"
    have "\<not> ?other"
    proof
      assume ?other
      then obtain r where r: "r \<in> set (rows s)" "bookingId r \<noteq> bookingId X"
        "stationId r = ?sid" "startTime r < ?en" "?st < endTime r" by blast
      from h have w: "?sid = stationId X" "startTime X \<le> ?st" "?en \<le> endTime X"
        by (simp_all add: applyPatch_fields)
      from w r have "stationId X = stationId r" by simp
      moreover from w r have "spec_overlaps X r" by (simp add: spec_overlaps_def)
      moreover from h have "no_overlap s" by simp
      ultimately show False using r(1,2) assms(2) unfolding no_overlap_def by metis
    qed
    with c show "fst (update s (bookingId X) p) \<noteq> Inl Conflict" by simp
  qed
  from c ok fields self show ?thesis by blast
qed

theorem update_excludes_itself_witness:
  "wf_store twoRows \<and> no_overlap twoRows
   \<and> mkBooking (request 2 14 16 ''confirmed'') 1 \<in> set (rows twoRows)
   \<and> fst (update twoRows 1 (moveTo 16 18)) = Inl Conflict
   \<and> update twoRows 1 (moveTo 13 15) =
       (Inr (mkBooking (request 2 13 15 ''confirmed'') 1),
        emptyStore\<lparr>rows := [mkBooking (request 2 13 15 ''confirmed'') 1,
                             mkBooking (request 2 16 18 ''confirmed'') 2], nextId := 3\<rparr>)
   \<and> update twoRows 1 (noPatch\<lparr>stationIdOpt := Some 9\<rparr>) = (Inl ForeignKey, twoRows)
   \<and> fst (update twoRows 1 (moveTo 14 16)) \<noteq> Inl Conflict
   \<and> fst (update twoRows 1 noPatch) \<noteq> Inl Conflict"
proof -
  let ?X = "mkBooking (request 2 14 16 ''confirmed'') 1"
  have wf: "wf_store twoRows"
    by (simp add: wf_store_def twoRows_def emptyStore_def mkBooking_def request_def)
  have no: "no_overlap twoRows"
    by (simp add: no_overlap_def spec_overlaps_def twoRows_def emptyStore_def
        mkBooking_def request_def)
  have mem: "?X \<in> set (rows twoRows)"
    by (simp add: twoRows_def emptyStore_def)
  have a: "fst (update twoRows 1 (moveTo 16 18)) = Inl Conflict"
    using update_excludes_itself [OF wf mem, of "moveTo 16 18"]
    by (simp add: twoRows_def emptyStore_def mkBooking_def request_def moveTo_def
        noPatch_def nullish_def)
  have b: "update twoRows 1 (moveTo 13 15) =
       (Inr (mkBooking (request 2 13 15 ''confirmed'') 1),
        emptyStore\<lparr>rows := [mkBooking (request 2 13 15 ''confirmed'') 1,
                             mkBooking (request 2 16 18 ''confirmed'') 2], nextId := 3\<rparr>)"
    using update_excludes_itself [OF wf mem, of "moveTo 13 15"]
    by (auto simp: twoRows_def emptyStore_def mkBooking_def request_def moveTo_def
        noPatch_def nullish_def applyPatch_def patchRefsExist_def)
  have f: "update twoRows 1 (noPatch\<lparr>stationIdOpt := Some 9\<rparr>) = (Inl ForeignKey, twoRows)"
    using update_excludes_itself [OF wf mem, of "noPatch\<lparr>stationIdOpt := Some 9\<rparr>"]
    by (auto simp: twoRows_def emptyStore_def mkBooking_def request_def
        noPatch_def nullish_def applyPatch_def patchRefsExist_def)
  have c: "fst (update twoRows 1 (moveTo 14 16)) \<noteq> Inl Conflict"
    using update_excludes_itself [OF wf mem, of "moveTo 14 16"] no
    by (simp add: twoRows_def emptyStore_def mkBooking_def request_def moveTo_def
        noPatch_def nullish_def applyPatch_def)
  have d: "fst (update twoRows 1 noPatch) \<noteq> Inl Conflict"
    using update_excludes_itself [OF wf mem, of noPatch] no
    by (simp add: twoRows_def emptyStore_def mkBooking_def request_def noPatch_def
        nullish_def applyPatch_def)
  from wf no mem a b f c d show ?thesis by simp
qed

section \<open>Missing keys and removal\<close>

lemma findById_absent:
  "i \<notin> bookingId ` set (rows s) \<Longrightarrow> findById s i = (Inl NotFound, s)"
  by (simp add: findById_def prisma_findUnique_absent)

lemma remove_stored:
  assumes "wf_store s" "X \<in> set (rows s)"
  shows "remove_booking s (bookingId X) = (Inr (), s\<lparr>rows := filter (\<lambda>r. r \<noteq> X) (rows s)\<rparr>)"
proof -
  have "filter (\<lambda>r. bookingId r \<noteq> bookingId X) (rows s) = filter (\<lambda>r. r \<noteq> X) (rows s)"
    using same_key_same_row [OF assms] by (intro filter_cong) auto
  with prisma_findUnique_stored [OF assms] show ?thesis
    by (simp add: remove_booking_def findById_def prisma_delete_def)
qed

lemma create_after_remove:
  assumes wf: "wf_store s" and X: "X \<in> set (rows s)"
    and d: "stationId d = stationId X" "startTime d = startTime X" "endTime d = endTime X"
    and s': "s' = snd (remove_booking s (bookingId X))"
  shows "if \<exists>r\<in>set (rows s). r \<noteq> X \<and> stationId r = stationId X \<and>
              startTime r < endTime X \<and> startTime X < endTime r
         then create s' d = (Inl Conflict, s')
         else if dataRefsExist s d
         then create s' d =
                (Inr (mkBooking d (nextId s)),
                 s'\<lparr>rows := rows s' @ [mkBooking d (nextId s)], nextId := nextId s + 1\<rparr>)
         else create s' d = (Inl ForeignKey, s')"
proof -
  from remove_stored [OF wf X] s'
  have eq: "s' = s\<lparr>rows := filter (\<lambda>r. r \<noteq> X) (rows s)\<rparr>" by simp
  let ?other = "\<exists>r\<in>set (rows s). r \<noteq> X \<and> stationId r = stationId X \<and>
              startTime r < endTime X \<and> startTime X < endTime r"
  have av: "isStationAvailable s' (stationId d) (startTime d) (endTime d) None \<longleftrightarrow> \<not> ?other"
    using d by (auto simp: eq isStationAvailable_iff overlapWhere_def)
  have refs: "dataRefsExist s' d = dataRefsExist s d"
    by (simp add: eq dataRefsExist_def)
  have nid: "nextId s' = nextId s" by (simp add: eq)
  show ?thesis
  proof (cases ?other)
    case True
    with av have "create s' d = (Inl Conflict, s')" by (simp add: create_unavailable)
    with True show ?thesis by simp
  next
    case False
    with av have a: "isStationAvailable s' (stationId d) (startTime d) (endTime d) None"
      by simp
    show ?thesis
    proof (cases "dataRefsExist s d")
      case True
      with refs have "dataRefsExist s' d" by simp
      from create_inserts [OF a this] nid False True show ?thesis by simp
    next
      case r: False
      with refs have "\<not> dataRefsExist s' d" by simp
      from create_rejected [OF a this] False r show ?thesis by simp
    qed
  qed
qed

text \<open>
  Claim C7, as amended. For a key that no row has, \<^verbatim>\<open>findById\<close>, \<^verbatim>\<open>update\<close> and
  \<^verbatim>\<open>remove\<close> fail with \<open>NotFound\<close> and leave the table as it was. For a row \<open>X\<close> of the
  table, \<^verbatim>\<open>findById\<close> returns it and \<^verbatim>\<open>remove\<close> deletes exactly \<open>X\<close>, whatever the other
  rows are. A \<^verbatim>\<open>create\<close> with the station and window of \<open>X\<close> after \<open>X\<close> has been removed
  fails with \<open>Conflict\<close> when another row of the station overlaps that window; when none
  does, it appends the row under the next key if its user and station exist, and fails
  with the store's foreign-key error if not. On a table without overlaps no other row
  overlaps the window of \<open>X\<close>, so there the new row is appended.
\<close>

theorem not_found_and_remove:
  "(i \<notin> bookingId ` set (rows s) \<longrightarrow>
      findById s i = (Inl NotFound, s) \<and>
      update s i p = (Inl NotFound, s) \<and>
      remove_booking s i = (Inl NotFound, s))
   \<and> (wf_store s \<and> X \<in> set (rows s) \<longrightarrow>
        findById s (bookingId X) = (Inr X, s) \<and>
        remove_booking s (bookingId X) = (Inr (), s\<lparr>rows := filter (\<lambda>r. r \<noteq> X) (rows s)\<rparr>))
   \<and> (wf_store s \<and> X \<in> set (rows s) \<and>
      stationId d = stationId X \<and> startTime d = startTime X \<and> endTime d = endTime X \<and>
      s' = snd (remove_booking s (bookingId X)) \<longrightarrow>
        (if \<exists>r\<in>set (rows s). r \<noteq> X \<and> stationId r = stationId X \<and>
              startTime r < endTime X \<and> startTime X < endTime r
         then create s' d = (Inl Conflict, s')
         else if dataRefsExist s d
         then create s' d =
                (Inr (mkBooking d (nextId s)),
                 s'\<lparr>rows := rows s' @ [mkBooking d (nextId s)], nextId := nextId s + 1\<rparr>)
         else create s' d = (Inl ForeignKey, s')))
   \<and> (wf_store s \<and> no_overlap s \<and> X \<in> set (rows s) \<and>
      stationId d = stationId X \<and> startTime d = startTime X \<and> endTime d = endTime X \<and>
      dataRefsExist s d \<and> s' = snd (remove_booking s (bookingId X)) \<longrightarrow>
        create s' d =
          (Inr (mkBooking d (nextId s)),
           s'\<lparr>rows := rows s' @ [mkBooking d (nextId s)], nextId := nextId s + 1\<rparr>))"
proof (intro conjI impI)
  assume a: "i \<notin> bookingId ` set (rows s)"
  then show "findById s i = (Inl NotFound, s)" by (rule findById_absent)
  from a show "update s i p = (Inl NotFound, s)"
    by (simp add: update_def findById_absent)
  from a show "remove_booking s i = (Inl NotFound, s)"
    by (simp add: remove_booking_def findById_absent)
next
  assume h: "wf_store s \<and> X \<in> set (rows s)"
  then show "findById s (bookingId X) = (Inr X, s)"
    by (simp add: findById_def prisma_findUnique_stored)
  from h show "remove_booking s (bookingId X)
      = (Inr (), s\<lparr>rows := filter (\<lambda>r. r \<noteq> X) (rows s)\<rparr>)"
    by (simp add: remove_stored)
next
  assume h: "wf_store s \<and> X \<in> set (rows s) \<and>
      stationId d = stationId X \<and> startTime d = startTime X \<and> endTime d = endTime X \<and>
      s' = snd (remove_booking s (bookingId X))"
  then show "if \<exists>r\<in>set (rows s). r \<noteq> X \<and> stationId r = stationId X \<and>
              startTime r < endTime X \<and> startTime X < endTime r
         then create s' d = (Inl Conflict, s')
         else if dataRefsExist s d
         then create s' d =
                (Inr (mkBooking d (nextId s)),
                 s'\<lparr>rows := rows s' @ [mkBooking d (nextId s)], nextId := nextId s + 1\<rparr>)
         else create s' d = (Inl ForeignKey, s')"
    using create_after_remove [of s X d s'] by blast
next
  assume h: "wf_store s \<and> no_overlap s \<and> X \<in> set (rows s) \<and>
      stationId d = stationId X \<and> startTime d = startTime X \<and> endTime d = endTime X \<and>
      dataRefsExist s d \<and> s' = snd (remove_booking s (bookingId X))"
  have none: "\<not> (\<exists>r\<in>set (rows s). r \<noteq> X \<and> stationId r = stationId X \<and>
              startTime r < endTime X \<and> startTime X < endTime r)"
  proof
    assume "\<exists>r\<in>set (rows s). r \<noteq> X \<and> stationId r = stationId X \<and>
              startTime r < endTime X \<and> startTime X < endTime r"
    then obtain r where r: "r \<in> set (rows s)" "r \<noteq> X" "stationId r = stationId X"
      "startTime r < endTime X" "startTime X < endTime r" by blast
    from h r have ne: "bookingId X \<noteq> bookingId r"
      using same_key_same_row [of s X r] by auto
    from r have "stationId X = stationId r" "spec_overlaps X r"
      by (simp_all add: spec_overlaps_def)
    moreover from h have "no_overlap s" "X \<in> set (rows s)" by simp_all
    ultimately show False using r(1) ne unfolding no_overlap_def by metis
  qed
  from h have c: "if \<exists>r\<in>set (rows s). r \<noteq> X \<and> stationId r = stationId X \<and>
              startTime r < endTime X \<and> startTime X < endTime r
         then create s' d = (Inl Conflict, s')
         else if dataRefsExist s d
         then create s' d =
                (Inr (mkBooking d (nextId s)),
                 s'\<lparr>rows := rows s' @ [mkBooking d (nextId s)], nextId := nextId s + 1\<rparr>)
         else create s' d = (Inl ForeignKey, s')"
    using create_after_remove [of s X d s'] by blast
  from h have refs: "dataRefsExist s d" by blast
  from c none refs show "create s' d =
          (Inr (mkBooking d (nextId s)),
           s'\<lparr>rows := rows s' @ [mkBooking d (nextId s)], nextId := nextId s + 1\<rparr>)"
    by (simp only: if_False if_True)
qed

theorem not_found_and_remove_witness:
  "findById twoRows 7 = (Inl NotFound, twoRows)
   \<and> update twoRows 7 (moveTo 16 18) = (Inl NotFound, twoRows)
   \<and> remove_booking twoRows 7 = (Inl NotFound, twoRows)
   \<and> remove_booking twoRows 2 = (Inr (), oneRow ''confirmed''\<lparr>nextId := 3\<rparr>)
   \<and> create (oneRow ''confirmed''\<lparr>nextId := 3\<rparr>) (request 2 16 18 ''pending'')
       = (Inr (mkBooking (request 2 16 18 ''pending'') 3),
          emptyStore\<lparr>rows := [mkBooking (request 2 14 16 ''confirmed'') 1,
                               mkBooking (request 2 16 18 ''pending'') 3], nextId := 4\<rparr>)"
proof -
  let ?X = "mkBooking (request 2 16 18 ''confirmed'') 2"
  let ?d = "request 2 16 18 ''pending''"
  have wf: "wf_store twoRows"
    by (simp add: wf_store_def twoRows_def emptyStore_def mkBooking_def request_def)
  have no: "no_overlap twoRows"
    by (simp add: no_overlap_def spec_overlaps_def twoRows_def emptyStore_def
        mkBooking_def request_def)
  have mem: "?X \<in> set (rows twoRows)"
    by (simp add: twoRows_def emptyStore_def)
  have ab: "7 \<notin> bookingId ` set (rows twoRows)"
    by (simp add: twoRows_def emptyStore_def mkBooking_def)
  have refs: "dataRefsExist twoRows ?d"
    by (simp add: dataRefsExist_def twoRows_def emptyStore_def request_def)
  have rm: "remove_booking twoRows 2 = (Inr (), oneRow ''confirmed''\<lparr>nextId := 3\<rparr>)"
    by (simp add: remove_booking_def findById_def prisma_findUnique_def prisma_delete_def
        twoRows_def oneRow_def emptyStore_def mkBooking_def request_def)
  note t = not_found_and_remove
             [of 7 twoRows "moveTo 16 18" ?X ?d "oneRow ''confirmed''\<lparr>nextId := 3\<rparr>"]
  from t ab have nf: "findById twoRows 7 = (Inl NotFound, twoRows)
      \<and> update twoRows 7 (moveTo 16 18) = (Inl NotFound, twoRows)
      \<and> remove_booking twoRows 7 = (Inl NotFound, twoRows)" by blast
  have k: "bookingId ?X = 2" "stationId ?d = stationId ?X" "startTime ?d = startTime ?X"
    "endTime ?d = endTime ?X"
    by (simp_all add: mkBooking_def request_def)
  from rm k have s': "oneRow ''confirmed''\<lparr>nextId := 3\<rparr> = snd (remove_booking twoRows (bookingId ?X))"
    by simp
  from t wf no mem refs k s'
  have "create (oneRow ''confirmed''\<lparr>nextId := 3\<rparr>) ?d =
          (Inr (mkBooking ?d (nextId twoRows)),
           oneRow ''confirmed''
             \<lparr>nextId := 3,
              rows := rows (oneRow ''confirmed''\<lparr>nextId := 3\<rparr>) @ [mkBooking ?d (nextId twoRows)],
              nextId := nextId twoRows + 1\<rparr>)"
    by blast
  then have cr: "create (oneRow ''confirmed''\<lparr>nextId := 3\<rparr>) ?d
       = (Inr (mkBooking ?d 3),
          emptyStore\<lparr>rows := [mkBooking (request 2 14 16 ''confirmed'') 1,
                               mkBooking ?d 3], nextId := 4\<rparr>)"
    by (simp add: twoRows_def oneRow_def emptyStore_def)
  from nf rm cr show ?thesis by simp
qed

text \<open>
  The claim as stated fails: two interleaved calls of \<^verbatim>\<open>create\<close> leave the rows from 14
  to 16 and from 15 to 17 on station 2. After the first is removed, \<^verbatim>\<open>create\<close> with its
  station and window fails with \<open>Conflict\<close> against the second.
\<close>

theorem recreate_after_remove_counterexample:
  "fst (run [0, 1, 0, 1]
         (emptyStore,
          [CreateStart (request 2 14 16 ''pending''),
           CreateStart (request 2 15 17 ''pending'')])) = racedRows
   \<and> wf_store racedRows
   \<and> mkBooking (request 2 14 16 ''pending'') 1 \<in> set (rows racedRows)
   \<and> remove_booking racedRows 1 =
       (Inr (), racedRows\<lparr>rows := [mkBooking (request 2 15 17 ''pending'') 2]\<rparr>)
   \<and> create (racedRows\<lparr>rows := [mkBooking (request 2 15 17 ''pending'') 2]\<rparr>)
        (request 2 14 16 ''pending'')
       = (Inl Conflict, racedRows\<lparr>rows := [mkBooking (request 2 15 17 ''pending'') 2]\<rparr>)"
  by (simp add: wf_store_def racedRows_def emptyStore_def remove_booking_def findById_def
      prisma_findUnique_def prisma_delete_def create_def prisma_create_def dataRefsExist_def
      isStationAvailable_def overlapWhere_def request_def mkBooking_def Let_def)

section \<open>Listing\<close>












section \<open>The invariant, call after call and under interleaving\<close>

lemma create_keeps_wf:
  assumes "wf_store s"
  shows "wf_store (snd (create s d))"
proof (cases "isStationAvailable s (stationId d) (startTime d) (endTime d) None \<and>
    dataRefsExist s d")
  case True
  have "bookingId (mkBooking d (nextId s)) = nextId s" by (simp add: mkBooking_def)
  with assms True show ?thesis
    by (auto simp: create_inserts wf_store_def)
next
  case False
  then have "snd (create s d) = s"
    by (cases "isStationAvailable s (stationId d) (startTime d) (endTime d) None")
       (simp_all add: create_rejected create_unavailable)
  with assms show ?thesis by simp
qed

lemma create_keeps_no_overlap:
  assumes wf: "wf_store s" and no: "no_overlap s"
  shows "no_overlap (snd (create s d))"
proof (cases "isStationAvailable s (stationId d) (startTime d) (endTime d) None \<and>
    dataRefsExist s d")
  case False
  then have "snd (create s d) = s"
    by (cases "isStationAvailable s (stationId d) (startTime d) (endTime d) None")
       (simp_all add: create_rejected create_unavailable)
  with no show ?thesis by simp
next
  case t: True
  then have True: "isStationAvailable s (stationId d) (startTime d) (endTime d) None"
    by simp
  let ?b = "mkBooking d (nextId s)"
  have fb: "stationId ?b = stationId d" "startTime ?b = startTime d" "endTime ?b = endTime d"
    by (simp_all add: mkBooking_def)
  have free: "\<And>r. r \<in> set (rows s) \<Longrightarrow> stationId r = stationId ?b \<Longrightarrow>
      \<not> spec_overlaps r ?b \<and> \<not> spec_overlaps ?b r"
  proof -
    fix r assume "r \<in> set (rows s)" and st: "stationId r = stationId ?b"
    with True have "\<not> overlapWhere (stationId d) (startTime d) (endTime d) None r"
      by (simp add: isStationAvailable_iff)
    with st fb show "\<not> spec_overlaps r ?b \<and> \<not> spec_overlaps ?b r"
      by (auto simp: overlapWhere_def spec_overlaps_def)
  qed
  have "no_overlap (s\<lparr>rows := rows s @ [?b], nextId := nextId s + 1\<rparr>)"
    unfolding no_overlap_def
  proof (intro ballI impI)
    fix a b
    assume a: "a \<in> set (rows (s\<lparr>rows := rows s @ [?b], nextId := nextId s + 1\<rparr>))"
      and b: "b \<in> set (rows (s\<lparr>rows := rows s @ [?b], nextId := nextId s + 1\<rparr>))"
      and ne: "bookingId a \<noteq> bookingId b" and st: "stationId a = stationId b"
    from a have a': "a \<in> set (rows s) \<or> a = ?b" by auto
    from b have b': "b \<in> set (rows s) \<or> b = ?b" by auto
    show "\<not> spec_overlaps a b"
    proof (cases "a = ?b")
      case True
      with ne b' have "b \<in> set (rows s)" by auto
      with free [of b] st True show ?thesis by simp
    next
      case False
      with a' have ain: "a \<in> set (rows s)" by simp
      show ?thesis
      proof (cases "b = ?b")
        case True
        with free [of a] ain st show ?thesis by simp
      next
        case False
        with b' have "b \<in> set (rows s)" by simp
        with no ain ne st show ?thesis unfolding no_overlap_def by blast
      qed
    qed
  qed
  with t show ?thesis by (simp add: create_inserts)
qed

lemma prisma_findUnique_Some:
  "prisma_findUnique s i = Some X \<Longrightarrow> X \<in> set (rows s) \<and> bookingId X = i"
  by (auto simp: prisma_findUnique_def find_Some_iff)

lemma update_cases:
  assumes "wf_store s"
  shows "snd (update s i p) = s \<or>
     (\<exists>X\<in>set (rows s). bookingId X = i \<and>
        isStationAvailable s (stationId (applyPatch X p)) (startTime (applyPatch X p))
          (endTime (applyPatch X p)) (Some (bookingId X)) \<and>
        snd (update s i p) =
          s\<lparr>rows := map (\<lambda>r. if r = X then applyPatch X p else r) (rows s)\<rparr>)"
proof (cases "prisma_findUnique s i")
  case None
  then show ?thesis by (simp add: update_def findById_def)
next
  case (Some X)
  then have X: "X \<in> set (rows s)" "bookingId X = i" by (auto dest: prisma_findUnique_Some)
  from update_stored [OF assms X(1), of p] X show ?thesis
    by (auto simp: applyPatch_fields split: if_splits)
qed

lemma replace_keeps_wf:
  assumes "wf_store s" and "bookingId X' = bookingId X"
  shows "wf_store (s\<lparr>rows := map (\<lambda>r. if r = X then X' else r) (rows s)\<rparr>)"
proof -
  have "bookingId \<circ> (\<lambda>r. if r = X then X' else r) = bookingId"
    using assms(2) by (auto simp: fun_eq_iff)
  with assms show ?thesis by (auto simp: wf_store_def)
qed

lemma replace_keeps_no_overlap:
  assumes wf: "wf_store s" and no: "no_overlap s" and X: "X \<in> set (rows s)"
    and k: "bookingId X' = bookingId X"
    and av: "isStationAvailable s (stationId X') (startTime X') (endTime X')
               (Some (bookingId X))"
  shows "no_overlap (s\<lparr>rows := map (\<lambda>r. if r = X then X' else r) (rows s)\<rparr>)"
proof -
  have nz: "bookingId X \<noteq> 0" using wf X by (rule stored_key_nonzero)
  have free: "\<And>r. r \<in> set (rows s) \<Longrightarrow> bookingId r \<noteq> bookingId X \<Longrightarrow>
      stationId r = stationId X' \<Longrightarrow> \<not> spec_overlaps r X' \<and> \<not> spec_overlaps X' r"
    using av available_excluding_iff [OF nz, of s "stationId X'" "startTime X'" "endTime X'"]
    by (auto simp: spec_overlaps_def)
  show ?thesis
    unfolding no_overlap_def
  proof (intro ballI impI)
    fix a b
    assume "a \<in> set (rows (s\<lparr>rows := map (\<lambda>r. if r = X then X' else r) (rows s)\<rparr>))"
      and "b \<in> set (rows (s\<lparr>rows := map (\<lambda>r. if r = X then X' else r) (rows s)\<rparr>))"
      and ne: "bookingId a \<noteq> bookingId b" and st: "stationId a = stationId b"
    then obtain a0 b0 where a0: "a0 \<in> set (rows s)" "a = (if a0 = X then X' else a0)"
      and b0: "b0 \<in> set (rows s)" "b = (if b0 = X then X' else b0)"
      by auto
    show "\<not> spec_overlaps a b"
    proof (cases "a0 = X")
      case True
      with a0 have a: "a = X'" by simp
      with ne k b0 have "b0 \<noteq> X" by auto
      with b0 have b: "b = b0" by simp
      with ne a k have "bookingId b0 \<noteq> bookingId X" by simp
      with free [of b0] b0(1) st a b show ?thesis by simp
    next
      case False
      with a0 have a: "a = a0" by simp
      show ?thesis
      proof (cases "b0 = X")
        case True
        with b0 have b: "b = X'" by simp
        with ne a k have "bookingId a0 \<noteq> bookingId X" by simp
        with free [of a0] a0(1) st a b show ?thesis by simp
      next
        case False
        with b0 have "b = b0" by simp
        with no a a0(1) b0(1) ne st show ?thesis unfolding no_overlap_def by blast
      qed
    qed
  qed
qed

lemma update_keeps_invariants:
  assumes wf: "wf_store s" and no: "no_overlap s"
  shows "wf_store (snd (update s i p)) \<and> no_overlap (snd (update s i p))"
proof -
  from update_cases [OF wf, of i p] show ?thesis
  proof
    assume "snd (update s i p) = s"
    with wf no show ?thesis by simp
  next
    assume "\<exists>X\<in>set (rows s). bookingId X = i \<and>
        isStationAvailable s (stationId (applyPatch X p)) (startTime (applyPatch X p))
          (endTime (applyPatch X p)) (Some (bookingId X)) \<and>
        snd (update s i p) =
          s\<lparr>rows := map (\<lambda>r. if r = X then applyPatch X p else r) (rows s)\<rparr>"
    then obtain X where X: "X \<in> set (rows s)"
      and av: "isStationAvailable s (stationId (applyPatch X p)) (startTime (applyPatch X p))
          (endTime (applyPatch X p)) (Some (bookingId X))"
      and eq: "snd (update s i p) =
          s\<lparr>rows := map (\<lambda>r. if r = X then applyPatch X p else r) (rows s)\<rparr>"
      by blast
    have k: "bookingId (applyPatch X p) = bookingId X" by (simp add: applyPatch_fields)
    from replace_keeps_wf [OF wf k] replace_keeps_no_overlap [OF wf no X k av] eq
    show ?thesis by simp
  qed
qed

lemma remove_keeps_invariants:
  assumes wf: "wf_store s" and no: "no_overlap s"
  shows "wf_store (snd (remove_booking s i)) \<and> no_overlap (snd (remove_booking s i))"
proof (cases "prisma_findUnique s i")
  case None
  with wf no show ?thesis by (simp add: remove_booking_def findById_def)
next
  case (Some X)
  then have eq: "snd (remove_booking s i) = s\<lparr>rows := filter (\<lambda>r. bookingId r \<noteq> i) (rows s)\<rparr>"
    by (simp add: remove_booking_def findById_def prisma_delete_def)
  from wf have "wf_store (s\<lparr>rows := filter (\<lambda>r. bookingId r \<noteq> i) (rows s)\<rparr>)"
    by (auto simp: wf_store_def distinct_map_filter)
  moreover from no have "no_overlap (s\<lparr>rows := filter (\<lambda>r. bookingId r \<noteq> i) (rows s)\<rparr>)"
    by (auto simp: no_overlap_def)
  ultimately show ?thesis using eq by simp
qed

lemma emptyStore_invariants: "wf_store emptyStore \<and> no_overlap emptyStore"
  by (simp add: wf_store_def no_overlap_def emptyStore_def)

lemma run_create_alone:
  "run [0, 0] (s, [CreateStart d]) = (snd (create s d), [Done (fst (create s d))])"
  by (simp add: create_def Let_def split: prod.splits)

lemma run_update_alone:
  "run [0, 0, 0] (s, [UpdateStart i p]) = (snd (update s i p), [Done (fst (update s i p))])"
  by (simp add: update_def findById_def Let_def split: prod.splits option.splits)

text \<open>
  Claim C2, as amended. \<^verbatim>\<open>create\<close> and \<^verbatim>\<open>update\<close> issue the availability read and the
  write as separate queries, with no transaction around them. A call that runs all its
  steps with no step of another call in between is the function itself, and on a table
  with auto-increment keys and no overlap it leaves a table with auto-increment keys and
  no overlap. Nothing is promised for calls whose steps interleave.
\<close>

theorem calls_run_alone_keep_no_overlap:
  "run [0, 0] (s, [CreateStart d]) = (snd (create s d), [Done (fst (create s d))])
   \<and> run [0, 0, 0] (s, [UpdateStart i p]) = (snd (update s i p), [Done (fst (update s i p))])
   \<and> (wf_store s \<and> no_overlap s \<longrightarrow>
        wf_store (snd (create s d)) \<and> no_overlap (snd (create s d)) \<and>
        wf_store (snd (update s i p)) \<and> no_overlap (snd (update s i p)))"
  using run_create_alone [of s d] run_update_alone [of s i p]
    create_keeps_wf [of s d] create_keeps_no_overlap [of s d]
    update_keeps_invariants [of s i p]
  by blast

theorem calls_run_alone_keep_no_overlap_witness:
  "wf_store (oneRow ''confirmed'') \<and> no_overlap (oneRow ''confirmed'')
   \<and> no_overlap (snd (create (oneRow ''confirmed'') (request 2 16 18 ''pending'')))
   \<and> rows (snd (create (oneRow ''confirmed'') (request 2 16 18 ''pending'')))
       = [mkBooking (request 2 14 16 ''confirmed'') 1, mkBooking (request 2 16 18 ''pending'') 2]
   \<and> no_overlap (snd (update (oneRow ''confirmed'') 1 (moveTo 12 14)))
   \<and> rows (snd (update (oneRow ''confirmed'') 1 (moveTo 12 14)))
       = [mkBooking (request 2 12 14 ''confirmed'') 1]"
proof -
  have wf: "wf_store (oneRow ''confirmed'')"
    by (simp add: wf_store_def oneRow_def emptyStore_def mkBooking_def request_def)
  have no: "no_overlap (oneRow ''confirmed'')"
    by (simp add: no_overlap_def oneRow_def emptyStore_def mkBooking_def request_def)
  have c: "rows (snd (create (oneRow ''confirmed'') (request 2 16 18 ''pending'')))
       = [mkBooking (request 2 14 16 ''confirmed'') 1, mkBooking (request 2 16 18 ''pending'') 2]"
    by (simp add: create_def prisma_create_def dataRefsExist_def isStationAvailable_def
        overlapWhere_def oneRow_def emptyStore_def request_def mkBooking_def Let_def)
  have u: "rows (snd (update (oneRow ''confirmed'') 1 (moveTo 12 14)))
       = [mkBooking (request 2 12 14 ''confirmed'') 1]"
    by (simp add: update_def findById_def prisma_findUnique_def prisma_update_def
        patchRefsExist_def isStationAvailable_def overlapWhere_def applyPatch_def
        nullish_def moveTo_def noPatch_def oneRow_def emptyStore_def request_def
        mkBooking_def Let_def)
  from calls_run_alone_keep_no_overlap
         [of "oneRow ''confirmed''" "request 2 16 18 ''pending''" 1 "moveTo 12 14"] wf no c u
  show ?thesis by blast
qed

text \<open>
  The claim as stated fails: two calls of \<^verbatim>\<open>create\<close> for overlapping windows on station
  2, started on the empty table, each run their availability query before either writes.
  Both see no conflict, both insert, and the table ends with two overlapping rows.
\<close>

theorem interleaved_creates_counterexample:
  "wf_store emptyStore \<and> no_overlap emptyStore
   \<and> run [0, 1, 0, 1]
       (emptyStore,
        [CreateStart (request 2 14 16 ''pending''), CreateStart (request 2 15 17 ''pending'')])
     = (emptyStore\<lparr>rows := [mkBooking (request 2 14 16 ''pending'') 1,
                            mkBooking (request 2 15 17 ''pending'') 2], nextId := 3\<rparr>,
        [Done (Inr (mkBooking (request 2 14 16 ''pending'') 1)),
         Done (Inr (mkBooking (request 2 15 17 ''pending'') 2))])
   \<and> \<not> no_overlap (emptyStore\<lparr>rows := [mkBooking (request 2 14 16 ''pending'') 1,
                                     mkBooking (request 2 15 17 ''pending'') 2],
                            nextId := 3\<rparr>)"
  by (simp add: wf_store_def no_overlap_def spec_overlaps_def emptyStore_def
      isStationAvailable_def prisma_create_def dataRefsExist_def request_def mkBooking_def
      Let_def)

end
